theory Spec2Isabelle
  imports Complex_Main "HOL-Library.Word"
begin

unbundle bit_operations_syntax

section \<open>Byte buffers and JavaScript integer coercions\<close>

text \<open>
  A \<^verbatim>\<open>Uint8Array\<close> is a list of bytes. JavaScript numbers that hold integers are
  modelled by \<^typ>\<open>int\<close>; the places where the language coerces to a signed 32-bit
  integer (\<^verbatim>\<open>x | 0\<close> and the left operand of \<^verbatim>\<open><<\<close>) are written out with
  \<open>to_int32\<close>. Reading a typed array out of range yields \<^verbatim>\<open>undefined\<close>, which every
  use in \<^verbatim>\<open>BitView\<close> feeds to \<^verbatim>\<open>&\<close> or \<^verbatim>\<open>|| 0\<close>, hence the value 0; writing out
  of range is ignored; a stored value is reduced modulo 256.
\<close>


type_synonym bytes = "8 word list"

definition to_int32 :: "int \<Rightarrow> int" where
  "to_int32 x = signed_take_bit 31 x"

definition u8_get :: "bytes \<Rightarrow> int \<Rightarrow> int" where
  "u8_get u8 i = (if 0 \<le> i \<and> i < int (length u8) then uint (u8 ! nat i) else 0)"

definition u8_set :: "bytes \<Rightarrow> int \<Rightarrow> int \<Rightarrow> bytes" where
  "u8_set u8 i v = (if 0 \<le> i \<and> i < int (length u8) then u8[nat i := word_of_int v] else u8)"

section \<open>BitView: signed 12-bit and 6-bit fields at arbitrary bit offsets\<close>

text \<open>
  \<open>setInt12_raw\<close> and \<open>setInt6_raw\<close> are the bodies of \<^verbatim>\<open>setInt12\<close> and
  \<^verbatim>\<open>setInt6\<close> after the bias has been added to \<^verbatim>\<open>val\<close>.
\<close>

definition getInt12 :: "bytes \<Rightarrow> nat \<Rightarrow> int" where
  "getInt12 u8 idx =
    (let bidx = to_int32 (int idx div 8);
         a = u8_get u8 bidx;
         b = u8_get u8 (bidx + 1);
         c = u8_get u8 (bidx + 2);
         off = idx mod 8;
         abits = 8 - off;
         bbits = min (12 - abits) 8;
         cbits = max (12 - abits - bbits) 0;
         am = NOT (push_bit abits 255);
         bm = push_bit (8 - bbits) 255;
         cm = push_bit (8 - cbits) 255;
         maskedA = a AND am;
         maskedB = b AND bm;
         maskedC = c AND cm
     in drop_bit (12 - off) (push_bit 16 maskedA + push_bit 8 maskedB + maskedC) - 2048)"

definition setInt12_raw :: "bytes \<Rightarrow> nat \<Rightarrow> int \<Rightarrow> bytes" where
  "setInt12_raw u8 idx val =
    (let bidx = to_int32 (int idx div 8);
         off = idx mod 8;
         v = to_int32 (push_bit (12 - off) (to_int32 val));
         a = drop_bit 16 (v AND 0xff0000);
         b = drop_bit 8 (v AND 0x00ff00);
         c = v AND 0x0000ff;
         abits = 8 - off;
         bbits = min (12 - abits) 8;
         cbits = max (12 - abits - bbits) 0;
         am = push_bit abits 255;
         u1 = u8_set u8 bidx ((u8_get u8 bidx AND am) + a);
         bm = NOT (push_bit (8 - bbits) 255);
         u2 = u8_set u1 (bidx + 1) ((u8_get u1 (bidx + 1) AND bm) + b);
         cm = NOT (push_bit (8 - cbits) 255)
     in u8_set u2 (bidx + 2) ((u8_get u2 (bidx + 2) AND cm) + c))"

definition setInt12 :: "bytes \<Rightarrow> nat \<Rightarrow> int \<Rightarrow> bytes" where
  "setInt12 u8 idx val = setInt12_raw u8 idx (val + 2048)"


definition getInt6 :: "bytes \<Rightarrow> nat \<Rightarrow> int" where
  "getInt6 u8 idx =
    (let bidx = to_int32 (int idx div 8);
         a = u8_get u8 bidx;
         b = u8_get u8 (bidx + 1);
         off = idx mod 8;
         abits = 8 - off;
         bbits = nat (max (6 - int abits) 0);
         am = NOT (push_bit abits 255 + drop_bit (nat (8 - (2 - int off))) 255);
         bm = push_bit (8 - bbits) 255;
         maskedA = a AND am;
         maskedB = b AND bm
     in drop_bit (10 - off) (push_bit 8 maskedA + maskedB) - 32)"

definition setInt6_raw :: "bytes \<Rightarrow> nat \<Rightarrow> int \<Rightarrow> bytes" where
  "setInt6_raw u8 idx val =
    (let bidx = to_int32 (int idx div 8);
         off = idx mod 8;
         v = to_int32 (push_bit (10 - off) (to_int32 val));
         a = drop_bit 8 (v AND 0xff00);
         b = v AND 0x00ff;
         abits = 8 - off;
         bbits = nat (max (6 - int abits) 0);
         am = push_bit abits 255 + drop_bit (nat (8 - (2 - int off))) 255;
         u1 = u8_set u8 bidx ((u8_get u8 bidx AND am) + a);
         bm = NOT (push_bit (8 - bbits) 255)
     in u8_set u1 (bidx + 1) ((u8_get u1 (bidx + 1) AND bm) + b))"

definition setInt6 :: "bytes \<Rightarrow> nat \<Rightarrow> int \<Rightarrow> bytes" where
  "setInt6 u8 idx val = setInt6_raw u8 idx (val + 32)"

text \<open>
  Bit \<open>i\<close> of a buffer, most significant bit of each byte first, as
  \<^verbatim>\<open>getBit\<close> addresses it.
\<close>

definition buf_bit :: "bytes \<Rightarrow> nat \<Rightarrow> bool" where
  "buf_bit u8 i = bit (u8_get u8 (int (i div 8))) (7 - i mod 8)"

section \<open>JavaScript numbers\<close>

text \<open>
  A JavaScript number is an IEEE double: a finite value, an infinity or NaN. Every
  finite double is a rational, so the inputs are represented exactly; the arithmetic on
  finite values is taken exact (the rounding of the double operations is outside this
  embedding), and the two zeros are not distinguished. \<^verbatim>\<open>undefined\<close> turns into NaN as
  soon as it meets arithmetic or a typed array, so a missing array element is NaN.
\<close>

datatype jsnum = Fin rat | PInf | NInf | NaN

fun js_min :: "jsnum \<Rightarrow> jsnum \<Rightarrow> jsnum" where
  "js_min NaN b = NaN"
| "js_min a NaN = NaN"
| "js_min NInf b = NInf"
| "js_min a NInf = NInf"
| "js_min PInf b = b"
| "js_min a PInf = a"
| "js_min (Fin a) (Fin b) = Fin (min a b)"

fun js_max :: "jsnum \<Rightarrow> jsnum \<Rightarrow> jsnum" where
  "js_max NaN b = NaN"
| "js_max a NaN = NaN"
| "js_max PInf b = PInf"
| "js_max a PInf = PInf"
| "js_max NInf b = b"
| "js_max a NInf = a"
| "js_max (Fin a) (Fin b) = Fin (max a b)"

text \<open>Truncation towards zero, as ToIntegerOrInfinity and \<^verbatim>\<open>x | 0\<close> do.\<close>

definition trunc_rat :: "rat \<Rightarrow> int" where
  "trunc_rat r = (if 0 \<le> r then \<lfloor>r\<rfloor> else \<lceil>r\<rceil>)"

text \<open>
  The element conversion of \<^verbatim>\<open>Int16Array\<close>: NaN and the infinities become 0, a finite
  value is truncated towards zero and wrapped into the signed 16-bit range.
\<close>

fun to_int16 :: "jsnum \<Rightarrow> int" where
  "to_int16 (Fin r) = signed_take_bit 15 (trunc_rat r)"
| "to_int16 PInf = 0"
| "to_int16 NInf = 0"
| "to_int16 NaN = 0"

text \<open>\<^verbatim>\<open>(v / 180) * 32767\<close> and \<^verbatim>\<open>(v / 32767) * 180\<close>.\<close>

fun to_q16 :: "jsnum \<Rightarrow> jsnum" where
  "to_q16 (Fin r) = Fin ((r / 180) * 32767)"
| "to_q16 PInf = PInf"
| "to_q16 NInf = NInf"
| "to_q16 NaN = NaN"

definition from_q16 :: "int \<Rightarrow> jsnum" where
  "from_q16 v = Fin ((of_int v / 32767) * 180)"


text \<open>An element of an array of numbers; a missing element is \<^verbatim>\<open>undefined\<close>, hence NaN.\<close>

definition num_at :: "jsnum list \<Rightarrow> int \<Rightarrow> jsnum" where
  "num_at xs i = (if 0 \<le> i \<and> i < int (length xs) then xs ! nat i else NaN)"

section \<open>The Shapefile data model\<close>

text \<open>
  The interfaces \<^verbatim>\<open>PolyContent\<close>, \<^verbatim>\<open>PointContent\<close>, \<^verbatim>\<open>Shape\<close>, \<^verbatim>\<open>ShapeRecord\<close> and
  \<^verbatim>\<open>ShapefileData\<close>. Optional fields are options; the content of a shape is absent, a
  point or a poly content. Field names carry a prefix where two interfaces share them.
\<close>

record PolyContent =
  minX :: jsnum
  minY :: jsnum
  maxX :: jsnum
  maxY :: jsnum
  parts :: "int list"
  points :: "jsnum list"
  pc_z :: "jsnum list option"
  pc_m :: "jsnum list option"
  minZ :: "jsnum option"
  maxZ :: "jsnum option"
  minM :: "jsnum option"
  maxM :: "jsnum option"
  partTypes :: "int list option"

record PointContent =
  pt_x :: jsnum
  pt_y :: jsnum
  pt_z :: "jsnum option"
  pt_m :: "jsnum option"

datatype content = NoContent | PointC PointContent | PolyC PolyContent

record Shape =
  stype :: int
  content :: content

record ShapeRecord =
  number :: int
  rlength :: int
  shape :: Shape

record ShapefileData =
  fileCode :: int
  wordLength :: int
  byteLength :: int
  version :: int
  shapeType :: int
  sf_minX :: jsnum
  sf_minY :: jsnum
  sf_maxX :: jsnum
  sf_maxY :: jsnum
  sf_minZ :: jsnum
  sf_maxZ :: jsnum
  sf_minM :: jsnum
  sf_maxM :: jsnum
  records :: "ShapeRecord list"

text \<open>The constants of \<^verbatim>\<open>ShapeType\<close>.\<close>

abbreviation (input) NULL :: int where "NULL \<equiv> 0"
abbreviation (input) POINT :: int where "POINT \<equiv> 1"
abbreviation (input) POLYLINE :: int where "POLYLINE \<equiv> 3"
abbreviation (input) POLYGON :: int where "POLYGON \<equiv> 5"
abbreviation (input) MULTIPOINT :: int where "MULTIPOINT \<equiv> 8"
abbreviation (input) POINTZ :: int where "POINTZ \<equiv> 11"
abbreviation (input) POLYLINEZ :: int where "POLYLINEZ \<equiv> 13"
abbreviation (input) POLYGONZ :: int where "POLYGONZ \<equiv> 15"
abbreviation (input) MULTIPOINTZ :: int where "MULTIPOINTZ \<equiv> 18"
abbreviation (input) POINTM :: int where "POINTM \<equiv> 21"
abbreviation (input) POLYLINEM :: int where "POLYLINEM \<equiv> 23"
abbreviation (input) POLYGONM :: int where "POLYGONM \<equiv> 25"
abbreviation (input) MULTIPOINTM :: int where "MULTIPOINTM \<equiv> 28"
abbreviation (input) MULTIPATCH :: int where "MULTIPATCH \<equiv> 31"

datatype error = RangeError | TypeError | UnsupportedVersion int | UnexpectedEnd | UnknownFileCode int | UnknownShapeType int

section \<open>DataView accessors\<close>

text \<open>
  A \<^verbatim>\<open>DataView\<close> read outside the buffer throws a RangeError. Multi-byte values are
  little-endian when the flag is set and big-endian otherwise.
\<close>

definition le_val :: "bytes \<Rightarrow> nat" where
  "le_val bs = foldr (\<lambda>b acc. unat b + 256 * acc) bs 0"

definition dv_read :: "bytes \<Rightarrow> nat \<Rightarrow> nat \<Rightarrow> bool \<Rightarrow> error + nat" where
  "dv_read buf off n littleEndian =
    (if off + n \<le> length buf
     then Inr (le_val (if littleEndian then take n (drop off buf) else rev (take n (drop off buf))))
     else Inl RangeError)"



definition getUint32 :: "bytes \<Rightarrow> nat \<Rightarrow> bool \<Rightarrow> error + nat" where
  "getUint32 buf off littleEndian = dv_read buf off 4 littleEndian"

definition getInt32 :: "bytes \<Rightarrow> nat \<Rightarrow> bool \<Rightarrow> error + int" where
  "getInt32 buf off littleEndian =
    (case dv_read buf off 4 littleEndian of
       Inl e \<Rightarrow> Inl e
     | Inr v \<Rightarrow> Inr (signed_take_bit 31 (int v)))"

text \<open>The bytes that \<^verbatim>\<open>setUint8\<close>, \<^verbatim>\<open>setUint16\<close>, \<^verbatim>\<open>setUint32\<close> and \<^verbatim>\<open>setInt32\<close> store
  for an integer: the value modulo the width, least significant byte first.\<close>

definition le_bytes :: "nat \<Rightarrow> int \<Rightarrow> bytes" where
  "le_bytes n v = map (\<lambda>k. word_of_int (drop_bit (8 * k) v)) [0..<n]"

definition be_bytes :: "nat \<Rightarrow> int \<Rightarrow> bytes" where
  "be_bytes n v = rev (le_bytes n v)"


section \<open>The delta codec\<close>

text \<open>\<^verbatim>\<open>(arr[i] / 16) | 0\<close>: division by 16, truncated towards zero.\<close>

definition quant12 :: "int \<Rightarrow> int" where
  "quant12 a = (if 0 \<le> a then a div 16 else - ((- a) div 16))"

text \<open>
  The main loop of \<^verbatim>\<open>deltaEncode6\<close> over the quantized samples that remain, with
  the loop variables \<^verbatim>\<open>polys\<close>, \<^verbatim>\<open>spans\<close>, \<^verbatim>\<open>span\<close>, \<^verbatim>\<open>x\<close>, \<^verbatim>\<open>y\<close> and \<^verbatim>\<open>byteLen\<close>.
  The index \<^verbatim>\<open>i\<close> moves by one at a sentinel and by two at a point. When the array
  ends after the first ordinate of a point, \<^verbatim>\<open>quantized[i + 1]\<close> is \<^verbatim>\<open>undefined\<close>: the
  comparison \<^verbatim>\<open>Math.abs(y - undefined) > 31\<close> is false, the open span is never pushed,
  and only \<^verbatim>\<open>byteLen\<close> records which branch ran.
\<close>

fun encode_loop ::
  "int list \<Rightarrow> int list list list \<Rightarrow> int list list \<Rightarrow> int list \<Rightarrow> int \<Rightarrow> int \<Rightarrow> nat
     \<Rightarrow> int list list list \<times> nat" where
  "encode_loop [] polys spans spn x y byteLen = (polys, byteLen)"
| "encode_loop (q # qs) polys spans spn x y byteLen =
    (if q = - 2048 then encode_loop qs (polys @ [spans @ [spn]]) [] [] x y (byteLen + 3)
     else case qs of
       [] \<Rightarrow> (polys, byteLen + (if spn = [] then 4 else if \<bar>x - q\<bar> > 31 then 5 else 2))
     | q' # qs' \<Rightarrow>
         if spn = [] then encode_loop qs' polys spans [q, q'] q q' (byteLen + 4)
         else if \<bar>x - q\<bar> > 31 \<or> \<bar>y - q'\<bar> > 31
           then encode_loop qs' polys (spans @ [spn]) [q, q'] q q' (byteLen + 1 + 4)
         else encode_loop qs' polys spans (spn @ [q - x, q' - y])
                (x + (q - x)) (y + (q' - y)) (byteLen + 2))"

text \<open>
  \<^verbatim>\<open>storeDeltas6\<close>. An element of a span that is missing is \<^verbatim>\<open>undefined\<close>;
  \<^verbatim>\<open>undefined + 2048\<close> is NaN and \<^verbatim>\<open>NaN << k\<close> is 0, so \<^verbatim>\<open>setInt12\<close> then stores the
  biased value 0.
\<close>

definition setInt12_at :: "bytes \<Rightarrow> nat \<Rightarrow> int list \<Rightarrow> nat \<Rightarrow> bytes" where
  "setInt12_at dv idx spn k =
    (if k < length spn then setInt12 dv idx (spn ! k) else setInt12_raw dv idx 0)"

fun store_deltas :: "bytes \<Rightarrow> nat \<Rightarrow> int list \<Rightarrow> bytes \<times> nat" where
  "store_deltas dv idx [] = (dv, idx)"
| "store_deltas dv idx (d # ds) = store_deltas (setInt6 dv idx d) (idx + 6) ds"

definition store_span :: "bytes \<Rightarrow> nat \<Rightarrow> int list \<Rightarrow> bytes \<times> nat" where
  "store_span dv idx spn =
    (let dv1 = setInt12_at dv idx spn 0;
         dv2 = setInt12_at dv1 (idx + 12) spn 1;
         (dv3, idx3) = store_deltas dv2 (idx + 24) (drop 2 spn)
     in (setInt6 dv3 idx3 (- 32), idx3 + 6))"

fun store_spans :: "bytes \<Rightarrow> nat \<Rightarrow> int list list \<Rightarrow> bytes \<times> nat" where
  "store_spans dv idx [] = (dv, idx)"
| "store_spans dv idx (spn # spans) =
    (case store_span dv idx spn of (dv', idx') \<Rightarrow> store_spans dv' idx' spans)"

fun store_polys :: "bytes \<Rightarrow> nat \<Rightarrow> int list list list \<Rightarrow> bytes \<times> nat" where
  "store_polys dv idx [] = (dv, idx)"
| "store_polys dv idx (spans # polys) =
    (case store_spans dv idx spans of
       (dv', idx') \<Rightarrow> store_polys (setInt12 dv' idx' (- 2048)) (idx' + 12) polys)"

text \<open>\<^verbatim>\<open>Math.ceil(byteLen * 0.75) + 4\<close> zero bytes; the header write at offset 0 is
  big-endian and always inside the buffer.\<close>

definition storeDeltas6 :: "nat \<Rightarrow> int list list list \<Rightarrow> bytes" where
  "storeDeltas6 byteLen polys =
    (let buf = replicate ((3 * byteLen + 3) div 4 + 4) (0 :: 8 word);
         (dv, idx) = store_polys buf 32 polys
     in be_bytes 4 (int idx) @ drop 4 dv)"

definition deltaEncode6 :: "int list \<Rightarrow> bytes" where
  "deltaEncode6 arr =
    (let quantized = map quant12 arr;
         (polys, byteLen) = encode_loop quantized [] [] [] 0 0 0
     in storeDeltas6 byteLen polys)"

text \<open>
  \<^verbatim>\<open>deltaDecode6\<close>: the outer loop reads an anchor or a part sentinel, the inner loop
  reads deltas until the span sentinel. \<open>decode_loop\<close> is the outer loop and
  \<open>decode_span\<close> the inner one; both stop when \<^verbatim>\<open>idx\<close> reaches \<^verbatim>\<open>bitLength\<close>.
\<close>

function decode_loop :: "bytes \<Rightarrow> nat \<Rightarrow> nat \<Rightarrow> int list \<Rightarrow> int list"
  and decode_span :: "bytes \<Rightarrow> nat \<Rightarrow> nat \<Rightarrow> int \<Rightarrow> int \<Rightarrow> int list \<Rightarrow> int list" where
  "decode_loop dv bitLength idx polys =
    (if idx < bitLength then
       (let x = getInt12 dv idx in
        if x = - 2048 then decode_loop dv bitLength (idx + 12) (polys @ [- 2048])
        else (let y = getInt12 dv (idx + 12)
              in decode_span dv bitLength (idx + 24) x y (polys @ [x, y])))
     else polys)"
| "decode_span dv bitLength idx x y polys =
    (if idx < bitLength then
       (let dx = getInt6 dv idx in
        if dx = - 32 then decode_loop dv bitLength (idx + 6) polys
        else (let dy = getInt6 dv (idx + 6)
              in decode_span dv bitLength (idx + 12) (x + dx) (y + dy) (polys @ [x + dx, y + dy])))
     else decode_loop dv bitLength idx polys)"
  by pat_completeness auto
termination
  by (relation "measure (\<lambda>a. case a of
        Inl (dv, bitLength, idx, polys) \<Rightarrow> 2 * (bitLength - idx)
      | Inr (dv, bitLength, idx, x, y, polys) \<Rightarrow> 2 * (bitLength - idx) + 1)") auto


section \<open>compress\<close>

definition is_poly_type :: "int \<Rightarrow> bool" where
  "is_poly_type t \<longleftrightarrow>
     t = POLYGON \<or> t = POLYLINE \<or> t = POLYGONZ \<or> t = POLYLINEZ \<or> t = POLYGONM \<or> t = POLYLINEM"



text \<open>\<^verbatim>\<open>parts[k + 1] ?? points.length / 2\<close>; the quotient is not an integer when the
  flat array has odd length.\<close>

definition part_end :: "PolyContent \<Rightarrow> nat \<Rightarrow> rat" where
  "part_end c k =
    (if k + 1 < length (parts c) then of_int (parts c ! (k + 1))
     else of_nat (length (points c)) / 2)"

text \<open>The values of \<^verbatim>\<open>j\<close> in \<^verbatim>\<open>for (let j = start; j < end; j++)\<close>.\<close>

definition part_range :: "PolyContent \<Rightarrow> nat \<Rightarrow> int list" where
  "part_range c k = [parts c ! k .. \<lceil>part_end c k\<rceil> - 1]"

text \<open>What one part pushes to \<^verbatim>\<open>polys\<close>, \<^verbatim>\<open>zs\<close> and \<^verbatim>\<open>ms\<close>, and its entry
  \<^verbatim>\<open>end - start\<close> of \<^verbatim>\<open>partLengths\<close>.\<close>

definition part_polys :: "PolyContent \<Rightarrow> nat \<Rightarrow> jsnum list" where
  "part_polys c k =
    concat (map (\<lambda>j. [to_q16 (num_at (points c) (j * 2)), to_q16 (num_at (points c) (j * 2 + 1))])
              (part_range c k))"

definition part_zs :: "bool \<Rightarrow> PolyContent \<Rightarrow> nat \<Rightarrow> jsnum list" where
  "part_zs isZ c k =
    (case pc_z c of
       Some zv \<Rightarrow> if isZ then map (num_at zv) (part_range c k) else []
     | None \<Rightarrow> [])"

definition part_ms :: "bool \<Rightarrow> PolyContent \<Rightarrow> nat \<Rightarrow> jsnum list" where
  "part_ms isM c k =
    (case pc_m c of
       Some mv \<Rightarrow> if isM then map (num_at mv) (part_range c k) else []
     | None \<Rightarrow> [])"

definition part_length :: "PolyContent \<Rightarrow> nat \<Rightarrow> rat" where
  "part_length c k = part_end c k - of_int (parts c ! k)"

text \<open>
  One iteration of the loop over \<^verbatim>\<open>shp.records\<close>. The cast
  \<^verbatim>\<open>r.content as PolyContent\<close> is unchecked: on a record of a poly type whose content
  is missing or is a point, the accesses \<^verbatim>\<open>content.points\<close> and \<^verbatim>\<open>parts.length\<close>
  throw a TypeError.
\<close>

definition compress_record ::
  "bool \<Rightarrow> bool \<Rightarrow> Shape \<Rightarrow> error + (jsnum list \<times> jsnum list \<times> jsnum list \<times> rat list)" where
  "compress_record isZ isM r =
    (if is_poly_type (stype r) then
       (case content r of
          PolyC c \<Rightarrow>
            (let ks = [0..<length (parts c)]
             in Inr (concat (map (part_polys c) ks),
                     concat (map (part_zs isZ c) ks),
                     concat (map (part_ms isM c) ks),
                     map (part_length c) ks))
        | _ \<Rightarrow> Inl TypeError)
     else Inr ([], [], [], []))"

fun compress_records ::
  "bool \<Rightarrow> bool \<Rightarrow> Shape list
     \<Rightarrow> error + (jsnum list \<times> jsnum list \<times> jsnum list \<times> rat list list)" where
  "compress_records isZ isM [] = Inr ([], [], [], [])"
| "compress_records isZ isM (r # rs) =
    (case compress_record isZ isM r of
       Inl e \<Rightarrow> Inl e
     | Inr (ps, zv, mv, lens) \<Rightarrow>
         (case compress_records isZ isM rs of
            Inl e \<Rightarrow> Inl e
          | Inr (polys, zs, ms, recordMetadata) \<Rightarrow>
              Inr (ps @ polys, zv @ zs, mv @ ms, lens # recordMetadata)))"


text \<open>The array \<^verbatim>\<open>i16a\<close> handed to \<^verbatim>\<open>deltaEncode6\<close>.\<close>

definition compress_stream :: "jsnum list \<Rightarrow> int list" where
  "compress_stream polys = map to_int16 (polys @ [Fin (- 32768)])"




section \<open>decompress\<close>





text \<open>The variables of the reconstruction loops that one record works on.\<close>

record rec_state =
  pointIndex :: nat
  globalPointIndex :: nat
  rs_points :: "jsnum list"
  zValues :: "jsnum list"
  mValues :: "jsnum list"
  recMinX :: jsnum
  recMinY :: jsnum
  recMaxX :: jsnum
  recMaxY :: jsnum
  recMinZ :: jsnum
  recMaxZ :: jsnum
  recMinM :: jsnum
  recMaxM :: jsnum

text \<open>The body of the loop \<^verbatim>\<open>for (let k = 0; k < len; k++)\<close>, run \<open>len\<close> times.\<close>

definition read_point ::
  "int list \<Rightarrow> jsnum list option \<Rightarrow> jsnum list option \<Rightarrow> rec_state \<Rightarrow> error + rec_state" where
  "read_point flatPoints zs ms s =
    (if pointIndex s + 1 \<ge> length flatPoints then Inl UnexpectedEnd
     else
       (let x = from_q16 (flatPoints ! pointIndex s);
            y = from_q16 (flatPoints ! (pointIndex s + 1));
            s1 = s\<lparr>pointIndex := pointIndex s + 2,
                   rs_points := rs_points s @ [x, y],
                   recMinX := js_min (recMinX s) x,
                   recMinY := js_min (recMinY s) y,
                   recMaxX := js_max (recMaxX s) x,
                   recMaxY := js_max (recMaxY s) y\<rparr>;
            s2 = (case zs of
                    None \<Rightarrow> s1
                  | Some zv \<Rightarrow>
                      (let zz = num_at zv (int (globalPointIndex s))
                       in s1\<lparr>zValues := zValues s1 @ [zz],
                              recMinZ := js_min (recMinZ s1) zz,
                              recMaxZ := js_max (recMaxZ s1) zz\<rparr>));
            s3 = (case ms of
                    None \<Rightarrow> s2
                  | Some mv \<Rightarrow>
                      (let mm = num_at mv (int (globalPointIndex s))
                       in s2\<lparr>mValues := mValues s2 @ [mm],
                              recMinM := js_min (recMinM s2) mm,
                              recMaxM := js_max (recMaxM s2) mm\<rparr>))
        in Inr (s3\<lparr>globalPointIndex := globalPointIndex s + 1\<rparr>)))"

fun read_points ::
  "int list \<Rightarrow> jsnum list option \<Rightarrow> jsnum list option \<Rightarrow> nat \<Rightarrow> rec_state \<Rightarrow> error + rec_state" where
  "read_points flatPoints zs ms 0 s = Inr s"
| "read_points flatPoints zs ms (Suc k) s =
    (case read_point flatPoints zs ms s of
       Inl e \<Rightarrow> Inl e
     | Inr s' \<Rightarrow> read_points flatPoints zs ms k s')"

text \<open>The loop \<^verbatim>\<open>for (const len of partLengths)\<close> with \<^verbatim>\<open>parts\<close> and
  \<^verbatim>\<open>currentPartStart\<close>.\<close>

fun read_parts ::
  "int list \<Rightarrow> jsnum list option \<Rightarrow> jsnum list option \<Rightarrow> nat list \<Rightarrow> nat list \<Rightarrow> nat \<Rightarrow> rec_state
     \<Rightarrow> error + (nat list \<times> rec_state)" where
  "read_parts flatPoints zs ms [] prts currentPartStart s = Inr (prts, s)"
| "read_parts flatPoints zs ms (len # lens) prts currentPartStart s =
    (case read_points flatPoints zs ms len s of
       Inl e \<Rightarrow> Inl e
     | Inr s' \<Rightarrow> read_parts flatPoints zs ms lens (prts @ [currentPartStart]) (currentPartStart + len) s')"







section \<open>The Shapefile parser\<close>

text \<open>The value of an IEEE double-precision bit pattern, as \<^verbatim>\<open>getFloat64\<close> returns it.\<close>

definition decode_f64 :: "64 word \<Rightarrow> jsnum" where
  "decode_f64 w =
    (let s = bit w 63;
         e = unat (take_bit 11 (drop_bit 52 w));
         f = uint (take_bit 52 w);
         mag = (if e = 0 then of_int f / 2 ^ 1074
                else if e < 1075 then of_int (2 ^ 52 + f) / 2 ^ (1075 - e)
                else of_int (2 ^ 52 + f) * 2 ^ (e - 1075))
     in if e = 2047 then (if f = 0 then (if s then NInf else PInf) else NaN)
        else Fin (if s then - mag else mag))"

definition getFloat64 :: "bytes \<Rightarrow> nat \<Rightarrow> bool \<Rightarrow> error + jsnum" where
  "getFloat64 buf off littleEndian =
    (case dv_read buf off 8 littleEndian of
       Inl e \<Rightarrow> Inl e
     | Inr v \<Rightarrow> Inr (decode_f64 (word_of_nat v)))"

text \<open>\<^verbatim>\<open>clamp(value, min, max)\<close> is \<^verbatim>\<open>Math.min(Math.max(value, min), max)\<close>.\<close>

definition clamp :: "jsnum \<Rightarrow> rat \<Rightarrow> rat \<Rightarrow> jsnum" where
  "clamp v lo hi = js_min (js_max v (Fin lo)) (Fin hi)"

text \<open>
  The reading loops of \<^verbatim>\<open>parseShape\<close>: \<open>n\<close> 32-bit integers, \<open>n\<close> clamped
  coordinate pairs, \<open>n\<close> doubles, each from \<open>idx\<close> on; the result carries the index
  after the last element read.
\<close>

fun read_int32s :: "bytes \<Rightarrow> nat \<Rightarrow> nat \<Rightarrow> error + (int list \<times> nat)" where
  "read_int32s dv idx 0 = Inr ([], idx)"
| "read_int32s dv idx (Suc n) =
    (case getInt32 dv idx True of
       Inl e \<Rightarrow> Inl e
     | Inr v \<Rightarrow>
         (case read_int32s dv (idx + 4) n of
            Inl e \<Rightarrow> Inl e
          | Inr (vs, idx') \<Rightarrow> Inr (v # vs, idx')))"

fun read_xy :: "bytes \<Rightarrow> nat \<Rightarrow> nat \<Rightarrow> error + (jsnum list \<times> nat)" where
  "read_xy dv idx 0 = Inr ([], idx)"
| "read_xy dv idx (Suc n) =
    (case getFloat64 dv idx True of
       Inl e \<Rightarrow> Inl e
     | Inr px \<Rightarrow>
         (case getFloat64 dv (idx + 8) True of
            Inl e \<Rightarrow> Inl e
          | Inr py \<Rightarrow>
              (case read_xy dv (idx + 16) n of
                 Inl e \<Rightarrow> Inl e
               | Inr (vs, idx') \<Rightarrow> Inr (clamp px (- 180) 180 # clamp py (- 90) 90 # vs, idx'))))"

fun read_f64s :: "bytes \<Rightarrow> nat \<Rightarrow> nat \<Rightarrow> error + (jsnum list \<times> nat)" where
  "read_f64s dv idx 0 = Inr ([], idx)"
| "read_f64s dv idx (Suc n) =
    (case getFloat64 dv idx True of
       Inl e \<Rightarrow> Inl e
     | Inr v \<Rightarrow>
         (case read_f64s dv (idx + 8) n of
            Inl e \<Rightarrow> Inl e
          | Inr (vs, idx') \<Rightarrow> Inr (v # vs, idx')))"

text \<open>A typed array of a negative length cannot be constructed: RangeError.\<close>

definition array_length :: "int \<Rightarrow> error + nat" where
  "array_length n = (if n < 0 then Inl RangeError else Inr (nat n))"

text \<open>The four clamped bounds at the head of a poly or multipoint content.\<close>

definition read_box :: "bytes \<Rightarrow> nat \<Rightarrow> error + (jsnum \<times> jsnum \<times> jsnum \<times> jsnum)" where
  "read_box dv idx =
    (case getFloat64 dv idx True of Inl e \<Rightarrow> Inl e | Inr a \<Rightarrow>
     (case getFloat64 dv (idx + 8) True of Inl e \<Rightarrow> Inl e | Inr b \<Rightarrow>
     (case getFloat64 dv (idx + 16) True of Inl e \<Rightarrow> Inl e | Inr c \<Rightarrow>
     (case getFloat64 dv (idx + 24) True of Inl e \<Rightarrow> Inl e | Inr d \<Rightarrow>
        Inr (clamp a (- 180) 180, clamp b (- 90) 90, clamp c (- 180) 180, clamp d (- 90) 90)))))"

text \<open>A range of two doubles followed by \<open>n\<close> doubles, read when \<open>present\<close> holds:
  the Z block and the M block.\<close>

definition read_range_block ::
  "bool \<Rightarrow> bytes \<Rightarrow> nat \<Rightarrow> nat
     \<Rightarrow> error + ((jsnum option \<times> jsnum option \<times> jsnum list option) \<times> nat)" where
  "read_range_block present dv idx n =
    (if present then
       (case getFloat64 dv idx True of Inl e \<Rightarrow> Inl e | Inr lo \<Rightarrow>
        (case getFloat64 dv (idx + 8) True of Inl e \<Rightarrow> Inl e | Inr hi \<Rightarrow>
         (case read_f64s dv (idx + 16) n of Inl e \<Rightarrow> Inl e
          | Inr (vs, idx') \<Rightarrow> Inr ((Some lo, Some hi, Some vs), idx'))))
     else Inr ((None, None, None), idx))"

definition parse_poly :: "int \<Rightarrow> bytes \<Rightarrow> nat \<Rightarrow> error + PolyContent" where
  "parse_poly t dv idx =
    (case getInt32 dv (idx + 32) True of Inl e \<Rightarrow> Inl e | Inr partCount \<Rightarrow>
     (case getInt32 dv (idx + 36) True of Inl e \<Rightarrow> Inl e | Inr pointCount \<Rightarrow>
     (case read_box dv idx of Inl e \<Rightarrow> Inl e | Inr (bx0, by0, bx1, by1) \<Rightarrow>
     (case array_length partCount of Inl e \<Rightarrow> Inl e | Inr np \<Rightarrow>
     (case array_length (pointCount * 2) of Inl e \<Rightarrow> Inl e | Inr nxy \<Rightarrow>
     (case read_int32s dv (idx + 40) np of Inl e \<Rightarrow> Inl e | Inr (prts, idx1) \<Rightarrow>
     (case (if t = MULTIPATCH then map_sum id (\<lambda>(vs, i). (Some vs, i)) (read_int32s dv idx1 np)
            else Inr (None, idx1)) of Inl e \<Rightarrow> Inl e | Inr (ptypes, idx2) \<Rightarrow>
     (case read_xy dv idx2 (nxy div 2) of Inl e \<Rightarrow> Inl e | Inr (pts, idx3) \<Rightarrow>
     (case read_range_block (t = POLYLINEZ \<or> t = POLYGONZ \<or> t = MULTIPATCH) dv idx3 (nat pointCount) of
        Inl e \<Rightarrow> Inl e | Inr ((zlo, zhi, zv), idx4) \<Rightarrow>
     (case read_range_block (t = POLYLINEZ \<or> t = POLYGONZ \<or> t = POLYLINEM \<or> t = POLYGONM
                               \<or> t = MULTIPATCH) dv idx4 (nat pointCount) of
        Inl e \<Rightarrow> Inl e | Inr ((mlo, mhi, mv), idx5) \<Rightarrow>
        Inr \<lparr>minX = bx0, minY = by0, maxX = bx1, maxY = by1, parts = prts, points = pts,
             pc_z = zv, pc_m = mv, minZ = zlo, maxZ = zhi, minM = mlo, maxM = mhi,
             partTypes = ptypes\<rparr>))))))))))"

definition parse_multipoint :: "int \<Rightarrow> bytes \<Rightarrow> nat \<Rightarrow> error + PolyContent" where
  "parse_multipoint t dv idx =
    (case getInt32 dv (idx + 32) True of Inl e \<Rightarrow> Inl e | Inr pointCount \<Rightarrow>
     (case read_box dv idx of Inl e \<Rightarrow> Inl e | Inr (bx0, by0, bx1, by1) \<Rightarrow>
     (case array_length (pointCount * 2) of Inl e \<Rightarrow> Inl e | Inr nxy \<Rightarrow>
     (case read_xy dv (idx + 36) (nxy div 2) of Inl e \<Rightarrow> Inl e | Inr (pts, idx3) \<Rightarrow>
     (case read_range_block (t = MULTIPOINTZ) dv idx3 (nat pointCount) of
        Inl e \<Rightarrow> Inl e | Inr ((zlo, zhi, zv), idx4) \<Rightarrow>
     (case read_range_block (t = MULTIPOINTZ \<or> t = MULTIPOINTM) dv idx4 (nat pointCount) of
        Inl e \<Rightarrow> Inl e | Inr ((mlo, mhi, mv), idx5) \<Rightarrow>
        Inr \<lparr>minX = bx0, minY = by0, maxX = bx1, maxY = by1, parts = [], points = pts,
             pc_z = zv, pc_m = mv, minZ = zlo, maxZ = zhi, minM = mlo, maxM = mhi,
             partTypes = None\<rparr>))))))"

definition parse_point :: "int \<Rightarrow> bytes \<Rightarrow> nat \<Rightarrow> error + PointContent" where
  "parse_point t dv idx =
    (case getFloat64 dv idx True of Inl e \<Rightarrow> Inl e | Inr px \<Rightarrow>
     (case getFloat64 dv (idx + 8) True of Inl e \<Rightarrow> Inl e | Inr py \<Rightarrow>
      if t = POINT then
        Inr \<lparr>pt_x = clamp px (- 180) 180, pt_y = clamp py (- 90) 90, pt_z = None, pt_m = None\<rparr>
      else
        (case getFloat64 dv (idx + 16) True of Inl e \<Rightarrow> Inl e | Inr v1 \<Rightarrow>
         if t = POINTM then
           Inr \<lparr>pt_x = clamp px (- 180) 180, pt_y = clamp py (- 90) 90, pt_z = None, pt_m = Some v1\<rparr>
         else
           (case getFloat64 dv (idx + 24) True of Inl e \<Rightarrow> Inl e | Inr v2 \<Rightarrow>
              Inr \<lparr>pt_x = clamp px (- 180) 180, pt_y = clamp py (- 90) 90,
                   pt_z = Some v1, pt_m = Some v2\<rparr>))))"

text \<open>\<^verbatim>\<open>parseShape\<close>: the type is read at \<open>idx\<close>, the content after it. The third
  argument of the source, the record length, is not used by it.\<close>

definition parseShape :: "bytes \<Rightarrow> nat \<Rightarrow> error + Shape" where
  "parseShape dv idx =
    (case getInt32 dv idx True of
       Inl e \<Rightarrow> Inl e
     | Inr t \<Rightarrow>
         if t = NULL then Inr \<lparr>stype = t, content = NoContent\<rparr>
         else if t = POINT \<or> t = POINTZ \<or> t = POINTM then
           (case parse_point t dv (idx + 4) of
              Inl e \<Rightarrow> Inl e
            | Inr c \<Rightarrow> Inr \<lparr>stype = t, content = PointC c\<rparr>)
         else if t = POLYLINE \<or> t = POLYGON \<or> t = POLYLINEZ \<or> t = POLYGONZ
                 \<or> t = POLYLINEM \<or> t = POLYGONM \<or> t = MULTIPATCH then
           (case parse_poly t dv (idx + 4) of
              Inl e \<Rightarrow> Inl e
            | Inr c \<Rightarrow> Inr \<lparr>stype = t, content = PolyC c\<rparr>)
         else if t = MULTIPOINT \<or> t = MULTIPOINTZ \<or> t = MULTIPOINTM then
           (case parse_multipoint t dv (idx + 4) of
              Inl e \<Rightarrow> Inl e
            | Inr c \<Rightarrow> Inr \<lparr>stype = t, content = PolyC c\<rparr>)
         else Inl (UnknownShapeType t))"

text \<open>A \<^verbatim>\<open>DataView\<close> read at an index that may have become negative.\<close>

definition getInt32_at :: "bytes \<Rightarrow> int \<Rightarrow> bool \<Rightarrow> error + int" where
  "getInt32_at dv idx littleEndian =
    (if idx < 0 then Inl RangeError else getInt32 dv (nat idx) littleEndian)"

text \<open>The \<^verbatim>\<open>try\<close>/\<^verbatim>\<open>catch\<close> around \<^verbatim>\<open>parseShape\<close>: whatever is thrown, the record
  gets a Null shape.\<close>

definition shape_or_null :: "bytes \<Rightarrow> nat \<Rightarrow> Shape" where
  "shape_or_null dv idx =
    (case parseShape dv idx of
       Inl e \<Rightarrow> \<lparr>stype = NULL, content = NoContent\<rparr>
     | Inr s \<Rightarrow> s)"

text \<open>
  The loop \<^verbatim>\<open>while (idx < o.byteLength)\<close> of \<^verbatim>\<open>parse\<close>. A record length that is
  negative moves \<^verbatim>\<open>idx\<close> backwards, so the loop need not end: the result is an option
  and \<open>None\<close> stands for a run that does not return.
\<close>

partial_function (option) parse_records ::
  "bytes \<Rightarrow> int \<Rightarrow> int \<Rightarrow> ShapeRecord list \<Rightarrow> (error + ShapeRecord list) option" where
  "parse_records dv byteLen idx recs =
    (if idx < byteLen then
       (case getInt32_at dv idx False of
          Inl e \<Rightarrow> Some (Inl e)
        | Inr num \<Rightarrow>
            (case getInt32_at dv (idx + 4) False of
               Inl e \<Rightarrow> Some (Inl e)
             | Inr len \<Rightarrow>
                 parse_records dv byteLen (idx + 8 + len * 2)
                   (recs @ [\<lparr>number = num, rlength = len, shape = shape_or_null dv (nat (idx + 8))\<rparr>])))
     else Some (Inr recs))"

declare parse_records.simps [code]

definition parse :: "bytes \<Rightarrow> (error + ShapefileData) option" where
  "parse arrayBuffer =
    (case getInt32 arrayBuffer 0 False of
       Inl e \<Rightarrow> Some (Inl e)
     | Inr fCode \<Rightarrow>
     if fCode \<noteq> 9994 then Some (Inl (UnknownFileCode fCode))
     else
     (case getInt32 arrayBuffer 24 False of Inl e \<Rightarrow> Some (Inl e) | Inr wLen \<Rightarrow>
     (case getInt32 arrayBuffer 28 True of Inl e \<Rightarrow> Some (Inl e) | Inr ver \<Rightarrow>
     (case getInt32 arrayBuffer 32 True of Inl e \<Rightarrow> Some (Inl e) | Inr sType \<Rightarrow>
     (case read_f64s arrayBuffer 36 8 of Inl e \<Rightarrow> Some (Inl e) | Inr (bs, idx) \<Rightarrow>
     (case parse_records arrayBuffer (wLen * 2) 100 [] of
        None \<Rightarrow> None
      | Some (Inl e) \<Rightarrow> Some (Inl e)
      | Some (Inr recs) \<Rightarrow>
          Some (Inr \<lparr>fileCode = fCode, wordLength = wLen, byteLength = wLen * 2,
                     version = ver, shapeType = sType,
                     sf_minX = bs ! 0, sf_minY = bs ! 1, sf_maxX = bs ! 2, sf_maxY = bs ! 3,
                     sf_minZ = bs ! 4, sf_maxZ = bs ! 5, sf_minM = bs ! 6, sf_maxM = bs ! 7,
                     records = recs\<rparr>)))))))"

section \<open>Notions used in the statements\<close>








text \<open>
  The framing of a Shapefile: \<open>framed dv byteLen idx n\<close> holds when \<open>n\<close> record
  headers can be read one after the other from \<open>idx\<close> on, each giving the place of
  the next, and the place after the last is not below \<open>byteLen\<close>. Nothing is asked of
  the bodies. \<open>frame_offsets\<close> lists the places of the headers.
\<close>

definition int32_at :: "bytes \<Rightarrow> int \<Rightarrow> int" where
  "int32_at dv idx = (case getInt32_at dv idx False of Inl e \<Rightarrow> 0 | Inr v \<Rightarrow> v)"

fun framed :: "bytes \<Rightarrow> int \<Rightarrow> int \<Rightarrow> nat \<Rightarrow> bool" where
  "framed dv byteLen idx 0 \<longleftrightarrow> \<not> idx < byteLen"
| "framed dv byteLen idx (Suc n) \<longleftrightarrow>
     idx < byteLen \<and> 0 \<le> idx \<and> idx + 8 \<le> int (length dv)
       \<and> framed dv byteLen (idx + 8 + int32_at dv (idx + 4) * 2) n"

fun frame_offsets :: "bytes \<Rightarrow> int \<Rightarrow> nat \<Rightarrow> int list" where
  "frame_offsets dv idx 0 = []"
| "frame_offsets dv idx (Suc n) = idx # frame_offsets dv (idx + 8 + int32_at dv (idx + 4) * 2) n"

text \<open>The record that one iteration of the loop of \<^verbatim>\<open>parse\<close> makes of the header at
  \<open>off\<close> and the body behind it.\<close>

definition frame_record :: "bytes \<Rightarrow> int \<Rightarrow> ShapeRecord" where
  "frame_record dv off =
     \<lparr>number = int32_at dv off, rlength = int32_at dv (off + 4),
      shape = shape_or_null dv (nat (off + 8))\<rparr>"

text \<open>A file of two records: one of the unknown shape type 99, one point at
  \<open>(10, 20)\<close>.\<close>

definition two_record_file :: bytes where
  "two_record_file =
     be_bytes 4 9994 @ replicate 20 0 @ be_bytes 4 70 @ le_bytes 4 1000 @ le_bytes 4 1
       @ replicate 64 0
       @ be_bytes 4 1 @ be_bytes 4 2 @ le_bytes 4 99
       @ be_bytes 4 2 @ be_bytes 4 10 @ le_bytes 4 1
       @ le_bytes 8 0x4024000000000000 @ le_bytes 8 0x4034000000000000"

section \<open>BitView: the bits a field access reads and writes\<close>

lemma m255: "(255::int) = mask 8"
  by (simp add: mask_eq_exp_minus_1)
lemma mff0000: "(0xff0000::int) = push_bit 16 (mask 8)"
  by (simp add: mask_eq_exp_minus_1)
lemma mff00: "(0xff00::int) = push_bit 8 (mask 8)"
  by (simp add: mask_eq_exp_minus_1)


lemma nobit_val: "0 \<le> (val::int) \<Longrightarrow> val < 2 ^ m \<Longrightarrow> m \<le> k \<Longrightarrow> \<not> bit val k"
  by (metis bit_take_bit_iff not_le take_bit_int_eq_self)


lemma bit_masked_add:
  fixes x m p :: int
  assumes "\<And>k. bit p k \<Longrightarrow> \<not> bit m k"
  shows "bit ((x AND m) + p) n \<longleftrightarrow> (bit x n \<and> bit m n) \<or> bit p n"
proof -
  have "(x AND m) + p = (x AND m) OR p"
    by (rule disjunctive_add) (use assms in \<open>auto simp add: bit_simps\<close>)
  then show ?thesis by (simp add: bit_simps)
qed


lemma bit_val_lt: "0 \<le> (val::int) \<Longrightarrow> val < 2 ^ m \<Longrightarrow> bit val k \<Longrightarrow> k < m"
  using nobit_val[of val m k] by (cases "k < m") auto

lemma bit_a12:
  assumes "off < 8" "0 \<le> val" "val < 4096"
  shows "bit (drop_bit 16 (to_int32 (push_bit (12 - off) (to_int32 val)) AND 0xff0000)) n
     \<longleftrightarrow> n < 8 - off \<and> bit val (n + 4 + off)"
proof -
  have v12: "\<And>k. bit val k \<Longrightarrow> k < 12"
    using bit_val_lt[of val 12] assms(2,3) by simp
  have e: "4 + (n + off) = n + 4 + off" by simp
  show ?thesis
    using assms(1) v12[of "n + 4 + off"] by (auto simp add: bit_simps mff0000 to_int32_def e)
qed


lemma bit_b12:
  assumes "off < 8" "0 \<le> val" "val < 4096"
  shows "bit (drop_bit 8 (to_int32 (push_bit (12 - off) (to_int32 val)) AND 0xff00)) n
     \<longleftrightarrow> n < 8 \<and> 4 \<le> n + off \<and> bit val (n + off - 4)"
proof -
  have v12: "\<And>k. 12 \<le> k \<Longrightarrow> \<not> bit val k"
    using nobit_val[of val 12] assms(2,3) by simp
  show ?thesis
    using assms(1) v12 by (auto simp add: bit_simps mff00 to_int32_def)
qed

lemma bit_c12:
  assumes "off < 8" "0 \<le> val" "val < 4096"
  shows "bit (to_int32 (push_bit (12 - off) (to_int32 val)) AND 0xff) n
     \<longleftrightarrow> n < 8 \<and> 12 \<le> n + off \<and> bit val (n + off - 12)"
proof -
  have v12: "\<And>k. 12 \<le> k \<Longrightarrow> \<not> bit val k"
    using nobit_val[of val 12] assms(2,3) by simp
  show ?thesis
    using assms(1) v12 by (auto simp add: bit_simps m255 to_int32_def)
qed

lemma to_int32_id: "0 \<le> x \<Longrightarrow> x < 2 ^ 31 \<Longrightarrow> to_int32 x = x"
  unfolding to_int32_def
  by (metis signed_take_bit_int_eq_self_iff  order.trans neg_le_0_iff_le zero_le_numeral zero_le_power)

lemma length_u8_set [simp]: "length (u8_set u i v) = length u"
  by (simp add: u8_set_def)

lemma u8_get_u8_set:
  "u8_get (u8_set u i v) j = (if j = i \<and> 0 \<le> i \<and> i < int (length u) then take_bit 8 v else u8_get u j)"
  by (auto simp add: u8_get_def u8_set_def uint_word_of_int_eq nth_list_update)

lemma bit_u8_get: "bit (u8_get u j) n \<Longrightarrow> n < 8"
  by (auto simp add: u8_get_def bit_simps split: if_splits dest: bit_imp_le_length)

lemma u8_get_out: "\<not> j < int (length u) \<Longrightarrow> u8_get u j = 0"
  by (simp add: u8_get_def)

lemma bit_setInt12_raw_byte:
  assumes big: "idx div 8 < 2 ^ 31" and v0: "0 \<le> val" and v1: "val < 4096" and n8: "n < 8"
  shows "bit (u8_get (setInt12_raw u idx val) j) n \<longleftrightarrow>
     (if j = int (idx div 8) \<and> n < 8 - idx mod 8
        then j < int (length u) \<and> bit val (n + 4 + idx mod 8)
      else if j = int (idx div 8) + 1 \<and> 4 \<le> n + idx mod 8
        then j < int (length u) \<and> bit val (n + idx mod 8 - 4)
      else if j = int (idx div 8) + 2 \<and> 12 \<le> n + idx mod 8
        then j < int (length u) \<and> bit val (n + idx mod 8 - 12)
      else bit (u8_get u j) n)"
proof -
  define off where "off = idx mod 8"
  define B where "B = int (idx div 8)"
  have off8: "off < 8" by (simp add: off_def)
  have B0: "0 \<le> B" by (simp add: B_def)
  have tB: "to_int32 (int idx div 8) = B"
  proof -
    have "int idx div 8 = B" by (simp add: B_def zdiv_int)
    moreover have "B < 2 ^ 31" using big unfolding B_def
      by (metis of_nat_less_iff of_nat_numeral of_nat_power)
    ultimately show ?thesis using B0 by (simp add: to_int32_id)
  qed
  define v where "v = to_int32 (push_bit (12 - off) (to_int32 val))"
  define a where "a = drop_bit 16 (v AND 0xff0000)"
  define b where "b = drop_bit 8 (v AND 0x00ff00)"
  define c where "c = v AND 0x0000ff"
  define am :: int where "am = push_bit (8 - off) 255"
  define bm :: int where "bm = NOT (push_bit (8 - min (12 - (8 - off)) 8) 255)"
  define cm :: int where "cm = NOT (push_bit (8 - max (12 - (8 - off) - min (12 - (8 - off)) 8) 0) 255)"
  have ba: "bit a k \<longleftrightarrow> k < 8 - off \<and> bit val (k + 4 + off)" for k
    unfolding a_def v_def by (rule bit_a12[OF off8 v0 v1])
  have bb: "bit b k \<longleftrightarrow> k < 8 \<and> 4 \<le> k + off \<and> bit val (k + off - 4)" for k
    unfolding b_def v_def by (rule bit_b12[OF off8 v0 v1])
  have bc: "bit c k \<longleftrightarrow> k < 8 \<and> 12 \<le> k + off \<and> bit val (k + off - 12)" for k
    unfolding c_def v_def by (rule bit_c12[OF off8 v0 v1])
  have A: "bit ((x AND am) + a) n \<longleftrightarrow> (if n < 8 - off then bit val (n + 4 + off) else bit x n)" for x
    using off8 n8 by (subst bit_masked_add)
      (auto simp add: ba am_def m255 bit_simps)
  have Bb: "bit ((x AND bm) + b) n \<longleftrightarrow> (if 4 \<le> n + off then bit val (n + off - 4) else bit x n)" for x
    using off8 n8 by (subst bit_masked_add)
      (auto simp add: bb bm_def m255 bit_simps)
  have C: "bit ((x AND cm) + c) n \<longleftrightarrow> (if 12 \<le> n + off then bit val (n + off - 12) else bit x n)" for x
    using off8 n8 by (subst bit_masked_add)
      (auto simp add: bc cm_def m255 bit_simps)
  define u1 where "u1 = u8_set u B ((u8_get u B AND am) + a)"
  define u2 where "u2 = u8_set u1 (B + 1) ((u8_get u1 (B + 1) AND bm) + b)"
  have res: "setInt12_raw u idx val = u8_set u2 (B + 2) ((u8_get u2 (B + 2) AND cm) + c)"
    unfolding setInt12_raw_def Let_def tB u2_def u1_def a_def b_def c_def v_def am_def bm_def cm_def off_def
    by simp
  show ?thesis
    unfolding res off_def[symmetric] B_def[symmetric]
    using B0 n8 
    by (auto simp add: u8_get_u8_set u2_def u1_def A Bb C bit_simps u8_get_out dest: bit_u8_get)
qed


lemma bit_3bytes:
  fixes A Bv Cv :: int
  assumes hb: "\<And>k. bit Bv k \<Longrightarrow> k < 8" and hc: "\<And>k. bit Cv k \<Longrightarrow> k < 8"
  shows "bit (push_bit 16 A + push_bit 8 Bv + Cv) m \<longleftrightarrow>
     (16 \<le> m \<and> bit A (m - 16)) \<or> (8 \<le> m \<and> bit Bv (m - 8)) \<or> bit Cv m"
proof -
  have 1: "push_bit 16 A + push_bit 8 Bv = push_bit 16 A OR push_bit 8 Bv"
    by (rule disjunctive_add) (use hb in \<open>fastforce simp add: bit_simps\<close>)
  have 2: "(push_bit 16 A OR push_bit 8 Bv) + Cv = (push_bit 16 A OR push_bit 8 Bv) OR Cv"
    by (rule disjunctive_add) (use hc in \<open>fastforce simp add: bit_simps\<close>)
  show ?thesis
    unfolding 1 2 by (auto simp add: bit_simps)
qed

lemma buf_bit_setInt12_raw:
  assumes big: "idx div 8 < 2 ^ 31" and v0: "0 \<le> val" and v1: "val < 4096"
  shows "buf_bit (setInt12_raw u idx val) i \<longleftrightarrow>
     (if idx \<le> i \<and> i < idx + 12 then i div 8 < length u \<and> bit val (idx + 11 - i) else buf_bit u i)"
proof -
  obtain q r where idx: "idx = 8 * q + r" and r: "r < 8"
    by (metis mod_less_divisor mult_div_mod_eq zero_less_numeral)
  obtain qi ri where i: "i = 8 * qi + ri" and ri: "ri < 8"
    by (metis mod_less_divisor mult_div_mod_eq zero_less_numeral)
  have n8: "7 - i mod 8 < 8" by simp
  have d: "i div 8 = qi" "i mod 8 = ri" "idx div 8 = q" "idx mod 8 = r"
    using r ri by (simp_all add: idx i)
  note F = bit_setInt12_raw_byte[OF big v0 v1 n8, of u "int (i div 8)", unfolded d]
  consider "qi < q" | "qi = q" | "qi = q + 1" | "qi = q + 2" | "q + 2 < qi" by linarith
  then show ?thesis
  proof cases
    case 1
    then show ?thesis
      unfolding buf_bit_def d F
      using r ri by (simp add: idx i)
  next
    case 2
    have e: "7 - ri + 4 + r = 8 * q + r + 11 - (8 * q + ri)" using r ri by simp
    from 2 show ?thesis
      unfolding buf_bit_def d F
      using r ri by (auto simp add: idx i e add.commute)
  next
    case 3
    have e: "7 - ri + r - 4 = 8 * q + r + 11 - (8 * (q + 1) + ri)" using r ri by simp
    from 3 show ?thesis
      unfolding buf_bit_def d F
      using r ri by (auto simp add: idx i e add.commute)
  next
    case 4
    have e: "7 - ri + r - 12 = 8 * q + r + 11 - (8 * (q + 2) + ri)" using r ri by simp
    from 4 show ?thesis
      unfolding buf_bit_def d F
      using r ri by (auto simp add: idx i e add.commute)
  next
    case 5
    then show ?thesis
      unfolding buf_bit_def d F
      using r ri by (simp add: idx i)
  qed
qed


lemma div_mod_8: "r < 8 \<Longrightarrow> (8 * q + r) div 8 = (q::nat)" "r < 8 \<Longrightarrow> (8 * q + r) mod 8 = r"
  by simp_all

lemma bit_idx_cong: "bit (a::int) x \<Longrightarrow> x = y \<Longrightarrow> bit a y"
  by simp

lemma bit_getInt12:
  assumes big: "idx div 8 < 2 ^ 31"
  shows "bit (getInt12 u idx + 2048) k \<longleftrightarrow> k < 12 \<and> buf_bit u (idx + 11 - k)"
proof -
  obtain q r where idx: "idx = 8 * q + r" and r: "r < 8"
    by (metis mod_less_divisor mult_div_mod_eq zero_less_numeral)
  have d: "idx div 8 = q" "idx mod 8 = r" using r by (simp_all add: idx)
  have tB: "to_int32 (int idx div 8) = int q"
  proof -
    have "int idx div 8 = int q" using d(1) by (simp add: zdiv_int)
    moreover have "int q < 2 ^ 31" using big unfolding d
      by (metis of_nat_less_iff of_nat_numeral of_nat_power)
    ultimately show ?thesis by (simp add: to_int32_id)
  qed
  define a where "a = u8_get u (int q)"
  define b where "b = u8_get u (int q + 1)"
  define c where "c = u8_get u (int q + 2)"
  define mA where "mA = a AND NOT (push_bit (8 - r) 255)"
  define mB where "mB = b AND push_bit (8 - min (12 - (8 - r)) 8) 255"
  define mC where "mC = c AND push_bit (8 - max (12 - (8 - r) - min (12 - (8 - r)) 8) 0) 255"
  have a8: "bit a n \<Longrightarrow> n < 8" for n unfolding a_def by (rule bit_u8_get)
  have b8: "bit b n \<Longrightarrow> n < 8" for n unfolding b_def by (rule bit_u8_get)
  have c8: "bit c n \<Longrightarrow> n < 8" for n unfolding c_def by (rule bit_u8_get)
  have bA: "bit mA n \<longleftrightarrow> n < 8 - r \<and> bit a n" for n
    using a8[of n] r by (auto simp add: mA_def m255 bit_simps)
  have bB: "bit mB n \<longleftrightarrow> 4 \<le> n + r \<and> bit b n" for n
    using b8[of n] r by (auto simp add: mB_def m255 bit_simps)
  have bC: "bit mC n \<longleftrightarrow> 12 \<le> n + r \<and> bit c n" for n
    using c8[of n] r by (auto simp add: mC_def m255 bit_simps)
  have g: "getInt12 u idx + 2048 = drop_bit (12 - r) (push_bit 16 mA + push_bit 8 mB + mC)"
    unfolding getInt12_def Let_def tB d mA_def mB_def mC_def a_def b_def c_def by simp
  have S: "bit (push_bit 16 mA + push_bit 8 mB + mC) m \<longleftrightarrow>
     (16 \<le> m \<and> bit mA (m - 16)) \<or> (8 \<le> m \<and> bit mB (m - 8)) \<or> bit mC m" for m
    by (rule bit_3bytes) (use b8 c8 bB bC in auto)
  have bb: "buf_bit u (8 * q' + r') \<longleftrightarrow> bit (u8_get u (int q')) (7 - r')" if "r' < 8" for q' r'
    using that by (simp add: buf_bit_def)
  have bq: "u8_get u (int q) = a" "u8_get u (int (q + 1)) = b" "u8_get u (int (q + 2)) = c"
    by (simp_all add: a_def b_def c_def add.commute)
  consider "12 \<le> k" | "k < 12" "r + 11 - k < 8" | "k < 12" "8 \<le> r + 11 - k" "r + 11 - k < 16"
    | "k < 12" "16 \<le> r + 11 - k" by linarith
  then show ?thesis
  proof cases
    case 1
    then show ?thesis
      unfolding g using r by (auto simp add: bit_simps S bA bB bC dest: a8 b8 c8)
  next
    case 2
    have e: "idx + 11 - k = 8 * q + (r + 11 - k)" using 2 by (simp add: idx)
    have e2: "7 - (r + 11 - k) = k - r - 4" "12 - r + k - 16 = k - r - 4" using 2 r by simp_all
    show ?thesis
      unfolding g e bb[OF 2(2)] bq using r 2
      by (auto simp add: bit_simps S bA bB bC e2 dest: a8 b8 c8 elim: bit_idx_cong)
  next
    case 3
    have e: "idx + 11 - k = 8 * (q + 1) + (r + 11 - k - 8)" using 3 by (simp add: idx)
    have l: "r + 11 - k - 8 < 8" using 3 by simp
    have e2: "7 - (r + 11 - k - 8) = k + 4 - r" "12 - r + k - 8 = k + 4 - r" using 3 r by simp_all
    show ?thesis
      unfolding g e bb[OF l] bq using r 3
      by (auto simp add: bit_simps S bA bB bC e2 dest: a8 b8 c8 elim: bit_idx_cong)
  next
    case 4
    have e: "idx + 11 - k = 8 * (q + 2) + (r + 11 - k - 16)" using 4 by (simp add: idx)
    have l: "r + 11 - k - 16 < 8" using 4 r by simp
    have e2: "7 - (r + 11 - k - 16) = 12 + k - r" "12 - r + k = 12 + k - r" using 4 r by simp_all
    show ?thesis
      unfolding g e bb[OF l] bq using r 4
      by (auto simp add: bit_simps S bA bB bC e2 dest: a8 b8 c8 elim: bit_idx_cong)
  qed
qed

lemma bit_a6:
  assumes "off < 8" "0 \<le> val" "val < 64"
  shows "bit (drop_bit 8 (to_int32 (push_bit (10 - off) (to_int32 val)) AND 0xff00)) n
     \<longleftrightarrow> n < 8 - off \<and> 2 \<le> n + off \<and> bit val (n + off - 2)"
proof -
  have v6: "\<And>k. bit val k \<Longrightarrow> k < 6"
    using bit_val_lt[of val 6] assms(2,3) by simp
  show ?thesis
    using assms(1) v6[of "n + off - 2"] by (auto simp add: bit_simps mff00 to_int32_def)
qed

lemma bit_b6:
  assumes "off < 8" "0 \<le> val" "val < 64"
  shows "bit (to_int32 (push_bit (10 - off) (to_int32 val)) AND 0xff) n
     \<longleftrightarrow> n < 8 \<and> 10 \<le> n + off \<and> bit val (n + off - 10)"
proof -
  have v6: "\<And>k. bit val k \<Longrightarrow> k < 6"
    using bit_val_lt[of val 6] assms(2,3) by simp
  show ?thesis
    using assms(1) v6[of "n + off - 10"] by (auto simp add: bit_simps m255 to_int32_def)
qed

lemma bit_am6:
  assumes "off < 8"
  shows "bit (push_bit (8 - off) 255 + drop_bit (nat (8 - (2 - int off))) (255::int)) n
     \<longleftrightarrow> (8 - off \<le> n \<and> n < 16 - off) \<or> n + off < 2"
proof -
  have e: "nat (8 - (2 - int off)) = 6 + off" by simp
  have "push_bit (8 - off) 255 + drop_bit (6 + off) (255::int)
      = push_bit (8 - off) 255 OR drop_bit (6 + off) (255::int)"
    by (rule disjunctive_add) (use assms in \<open>auto simp add: bit_simps m255\<close>)
  then show ?thesis
    unfolding e using assms by (auto simp add: bit_simps m255)
qed

lemma bit_setInt6_raw_byte:
  assumes big: "idx div 8 < 2 ^ 31" and v0: "0 \<le> val" and v1: "val < 64" and n8: "n < 8"
  shows "bit (u8_get (setInt6_raw u idx val) j) n \<longleftrightarrow>
     (if j = int (idx div 8) \<and> n < 8 - idx mod 8 \<and> 2 \<le> n + idx mod 8
        then j < int (length u) \<and> bit val (n + idx mod 8 - 2)
      else if j = int (idx div 8) + 1 \<and> 10 \<le> n + idx mod 8
        then j < int (length u) \<and> bit val (n + idx mod 8 - 10)
      else bit (u8_get u j) n)"
proof -
  define off where "off = idx mod 8"
  define B where "B = int (idx div 8)"
  have off8: "off < 8" by (simp add: off_def)
  have B0: "0 \<le> B" by (simp add: B_def)
  have tB: "to_int32 (int idx div 8) = B"
  proof -
    have "int idx div 8 = B" by (simp add: B_def zdiv_int)
    moreover have "B < 2 ^ 31" using big unfolding B_def
      by (metis of_nat_less_iff of_nat_numeral of_nat_power)
    ultimately show ?thesis using B0 by (simp add: to_int32_id)
  qed
  define v where "v = to_int32 (push_bit (10 - off) (to_int32 val))"
  define a where "a = drop_bit 8 (v AND 0xff00)"
  define b where "b = v AND 0x00ff"
  define am :: int where "am = push_bit (8 - off) 255 + drop_bit (nat (8 - (2 - int off))) 255"
  define bm :: int where "bm = NOT (push_bit (8 - nat (max (6 - int (8 - off)) 0)) 255)"
  have ba: "bit a k \<longleftrightarrow> k < 8 - off \<and> 2 \<le> k + off \<and> bit val (k + off - 2)" for k
    unfolding a_def v_def by (rule bit_a6[OF off8 v0 v1])
  have bb: "bit b k \<longleftrightarrow> k < 8 \<and> 10 \<le> k + off \<and> bit val (k + off - 10)" for k
    unfolding b_def v_def by (rule bit_b6[OF off8 v0 v1])
  have bam: "bit am k \<longleftrightarrow> (8 - off \<le> k \<and> k < 16 - off) \<or> k + off < 2" for k
    unfolding am_def by (rule bit_am6[OF off8])
  have A: "bit ((x AND am) + a) n \<longleftrightarrow>
      (if n < 8 - off \<and> 2 \<le> n + off then bit val (n + off - 2) else bit x n)" for x
    using off8 n8 by (subst bit_masked_add) (auto simp add: ba bam)
  have Bb: "bit ((x AND bm) + b) n \<longleftrightarrow> (if 10 \<le> n + off then bit val (n + off - 10) else bit x n)" for x
    using off8 n8 by (subst bit_masked_add) (auto simp add: bb bm_def m255 bit_simps)
  define u1 where "u1 = u8_set u B ((u8_get u B AND am) + a)"
  have res: "setInt6_raw u idx val = u8_set u1 (B + 1) ((u8_get u1 (B + 1) AND bm) + b)"
    unfolding setInt6_raw_def Let_def tB u1_def a_def b_def v_def am_def bm_def off_def
    by simp
  show ?thesis
    unfolding res off_def[symmetric] B_def[symmetric]
    using B0 n8 
    by (auto simp add: u8_get_u8_set u1_def A Bb bit_simps u8_get_out dest: bit_u8_get)
qed

lemma buf_bit_setInt6_raw:
  assumes big: "idx div 8 < 2 ^ 31" and v0: "0 \<le> val" and v1: "val < 64"
  shows "buf_bit (setInt6_raw u idx val) i \<longleftrightarrow>
     (if idx \<le> i \<and> i < idx + 6 then i div 8 < length u \<and> bit val (idx + 5 - i) else buf_bit u i)"
proof -
  obtain q r where idx: "idx = 8 * q + r" and r: "r < 8"
    by (metis mod_less_divisor mult_div_mod_eq zero_less_numeral)
  obtain qi ri where i: "i = 8 * qi + ri" and ri: "ri < 8"
    by (metis mod_less_divisor mult_div_mod_eq zero_less_numeral)
  have n8: "7 - i mod 8 < 8" by simp
  have d: "i div 8 = qi" "i mod 8 = ri" "idx div 8 = q" "idx mod 8 = r"
    using r ri by (simp_all add: idx i)
  note F = bit_setInt6_raw_byte[OF big v0 v1 n8, of u "int (i div 8)", unfolded d]
  consider "qi < q" | "qi = q" | "qi = q + 1" | "q + 1 < qi" by linarith
  then show ?thesis
  proof cases
    case 1
    then show ?thesis
      unfolding buf_bit_def d F
      using r ri by (simp add: idx i)
  next
    case 2
    have e: "7 - ri + r - 2 = 8 * q + r + 5 - (8 * q + ri)" using r ri by simp
    from 2 show ?thesis
      unfolding buf_bit_def d F
      using r ri by (auto simp add: idx i e add.commute)
  next
    case 3
    have e: "7 - ri + r - 10 = 8 * q + r + 5 - (8 * (q + 1) + ri)" using r ri by simp
    from 3 show ?thesis
      unfolding buf_bit_def d F
      using r ri by (auto simp add: idx i e add.commute)
  next
    case 4
    then show ?thesis
      unfolding buf_bit_def d F
      using r ri by (simp add: idx i)
  qed
qed

lemma bit_2bytes:
  fixes A Bv :: int
  assumes hb: "\<And>k. bit Bv k \<Longrightarrow> k < 8"
  shows "bit (push_bit 8 A + Bv) m \<longleftrightarrow> (8 \<le> m \<and> bit A (m - 8)) \<or> bit Bv m"
proof -
  have 1: "push_bit 8 A + Bv = push_bit 8 A OR Bv"
    by (rule disjunctive_add) (use hb in \<open>fastforce simp add: bit_simps\<close>)
  show ?thesis
    unfolding 1 by (auto simp add: bit_simps)
qed

lemma bit_getInt6:
  assumes big: "idx div 8 < 2 ^ 31"
  shows "bit (getInt6 u idx + 32) k \<longleftrightarrow> k < 6 \<and> buf_bit u (idx + 5 - k)"
proof -
  obtain q r where idx: "idx = 8 * q + r" and r: "r < 8"
    by (metis mod_less_divisor mult_div_mod_eq zero_less_numeral)
  have d: "idx div 8 = q" "idx mod 8 = r" using r by (simp_all add: idx)
  have tB: "to_int32 (int idx div 8) = int q"
  proof -
    have "int idx div 8 = int q" using d(1) by (simp add: zdiv_int)
    moreover have "int q < 2 ^ 31" using big unfolding d
      by (metis of_nat_less_iff of_nat_numeral of_nat_power)
    ultimately show ?thesis by (simp add: to_int32_id)
  qed
  define a where "a = u8_get u (int q)"
  define b where "b = u8_get u (int q + 1)"
  define am :: int where "am = push_bit (8 - r) 255 + drop_bit (nat (8 - (2 - int r))) 255"
  have bam: "bit am k \<longleftrightarrow> (8 - r \<le> k \<and> k < 16 - r) \<or> k + r < 2" for k
    unfolding am_def by (rule bit_am6[OF r])
  define mA where "mA = a AND NOT am"
  define mB where "mB = b AND push_bit (8 - nat (max (6 - int (8 - r)) 0)) 255"
  have a8: "bit a n \<Longrightarrow> n < 8" for n unfolding a_def by (rule bit_u8_get)
  have b8: "bit b n \<Longrightarrow> n < 8" for n unfolding b_def by (rule bit_u8_get)
  have bA: "bit mA n \<longleftrightarrow> n < 8 - r \<and> 2 \<le> n + r \<and> bit a n" for n
    using a8[of n] r by (auto simp add: mA_def bit_and_iff bit_not_iff bam)
  have bB: "bit mB n \<longleftrightarrow> 10 \<le> n + r \<and> bit b n" for n
    using b8[of n] r by (auto simp add: mB_def m255 bit_simps)
  have g: "getInt6 u idx + 32 = drop_bit (10 - r) (push_bit 8 mA + mB)"
    unfolding getInt6_def Let_def tB d mA_def mB_def a_def b_def am_def by simp
  have S: "bit (push_bit 8 mA + mB) m \<longleftrightarrow> (8 \<le> m \<and> bit mA (m - 8)) \<or> bit mB m" for m
    by (rule bit_2bytes) (use b8 bB in auto)
  have bb: "buf_bit u (8 * q' + r') \<longleftrightarrow> bit (u8_get u (int q')) (7 - r')" if "r' < 8" for q' r'
    using that by (simp add: buf_bit_def)
  have bq: "u8_get u (int q) = a" "u8_get u (int (q + 1)) = b"
    by (simp_all add: a_def b_def add.commute)
  consider "6 \<le> k" | "k < 6" "r + 5 - k < 8" | "k < 6" "8 \<le> r + 5 - k" by linarith
  then show ?thesis
  proof cases
    case 1
    then show ?thesis
      unfolding g using r by (auto simp add: bit_simps S bA bB dest: a8 b8)
  next
    case 2
    have e: "idx + 5 - k = 8 * q + (r + 5 - k)" using 2 by (simp add: idx)
    show ?thesis
      unfolding g e bb[OF 2(2)] bq using r 2
      by (auto simp add: bit_simps S bA bB dest: a8 b8 elim: bit_idx_cong)
  next
    case 3
    have e: "idx + 5 - k = 8 * (q + 1) + (r + 5 - k - 8)" using 3 by (simp add: idx)
    have l: "r + 5 - k - 8 < 8" using 3 r by simp
    show ?thesis
      unfolding g e bb[OF l] bq using r 3
      by (auto simp add: bit_simps S bA bB dest: a8 b8 elim: bit_idx_cong)
  qed
qed

lemma length_setInt12_raw: "length (setInt12_raw u idx val) = length u"
  by (simp add: setInt12_raw_def Let_def)

lemma length_setInt6_raw: "length (setInt6_raw u idx val) = length u"
  by (simp add: setInt6_raw_def Let_def)

lemma getInt12_setInt12_raw:
  assumes big: "idx div 8 < 2 ^ 31" and v0: "0 \<le> val" and v1: "val < 4096"
    and fit: "idx + 12 \<le> 8 * length u"
  shows "getInt12 (setInt12_raw u idx val) idx + 2048 = val"
proof (rule bit_eqI)
  fix k
  have v12: "bit val k \<Longrightarrow> k < 12"
    using bit_val_lt[of val 12 k] v0 v1 by simp
  have "k < 12 \<Longrightarrow> (idx + 11 - k) div 8 < length u" using fit by auto
  then show "bit (getInt12 (setInt12_raw u idx val) idx + 2048) k \<longleftrightarrow> bit val k"
    using v12 by (auto simp add: bit_getInt12[OF big] buf_bit_setInt12_raw[OF big v0 v1])
qed

lemma getInt6_setInt6_raw:
  assumes big: "idx div 8 < 2 ^ 31" and v0: "0 \<le> val" and v1: "val < 64"
    and fit: "idx + 6 \<le> 8 * length u"
  shows "getInt6 (setInt6_raw u idx val) idx + 32 = val"
proof (rule bit_eqI)
  fix k
  have v6: "bit val k \<Longrightarrow> k < 6"
    using bit_val_lt[of val 6 k] v0 v1 by simp
  have "k < 6 \<Longrightarrow> (idx + 5 - k) div 8 < length u" using fit by auto
  then show "bit (getInt6 (setInt6_raw u idx val) idx + 32) k \<longleftrightarrow> bit val k"
    using v6 by (auto simp add: bit_getInt6[OF big] buf_bit_setInt6_raw[OF big v0 v1])
qed

lemma u8_get_neg: "j < 0 \<Longrightarrow> u8_get u j = 0"
  by (simp add: u8_get_def)

lemma u8_set_neg: "j < 0 \<Longrightarrow> u8_set u j v = u"
  by (simp add: u8_set_def)

subsection \<open>Reading back a field that was just written\<close>

text \<open>
  C3 (as the specification states it): for every bit offset and every value in
  \<open>[-2048, 2047]\<close>, \<^verbatim>\<open>getInt12\<close> after \<^verbatim>\<open>setInt12\<close> at that offset returns the value,
  and likewise for the 6-bit accessors on \<open>[-32, 31]\<close>, provided the field lies within
  the backing buffer. The byte index is computed as \<^verbatim>\<open>(idx / 8) | 0\<close>, a signed 32-bit
  value: at bit offset \<open>2^34\<close> it is \<open>-2^31\<close>, every byte access misses the buffer and
  the value read back is \<open>-2048\<close>, although the field lies inside a buffer of
  \<open>2^31 + 2\<close> bytes.
\<close>

theorem bitview_roundtrip_counterexample:
  "17179869184 + 12 \<le> 8 * length (replicate 2147483650 (0 :: 8 word)) \<and>
   getInt12 (setInt12 (replicate 2147483650 0) 17179869184 5) 17179869184 \<noteq> 5"
proof -
  have b: "to_int32 2147483648 = - 2147483648"
    by (simp add: to_int32_def)
  have s: "setInt12 u 17179869184 5 = u" for u
    by (simp add: setInt12_def setInt12_raw_def Let_def b u8_set_neg)
  have g: "getInt12 u 17179869184 = - 2048" for u
    by (simp add: getInt12_def Let_def b u8_get_neg)
  show ?thesis
    by (simp add: s g)
qed

text \<open>
  C3 (amended): for every bit offset whose byte index is below \<open>2^31\<close> (bit offsets
  below \<open>2^34\<close>), every value in \<open>[-2048, 2047]\<close> written by \<^verbatim>\<open>setInt12\<close> is read
  back by \<^verbatim>\<open>getInt12\<close> at the same offset, and every value in \<open>[-32, 31]\<close> written by
  \<^verbatim>\<open>setInt6\<close> is read back by \<^verbatim>\<open>getInt6\<close>, at each of the eight alignments
  \<open>idx mod 8\<close>, provided the field lies within the backing buffer.
\<close>

theorem bitview_roundtrip:
  assumes "idx div 8 < 2 ^ 31"
  shows "(- 2048 \<le> v \<and> v \<le> 2047 \<and> idx + 12 \<le> 8 * length u8
            \<longrightarrow> getInt12 (setInt12 u8 idx v) idx = v)
       \<and> (- 32 \<le> w \<and> w \<le> 31 \<and> idx + 6 \<le> 8 * length u8
            \<longrightarrow> getInt6 (setInt6 u8 idx w) idx = w)"
  using getInt12_setInt12_raw[OF assms, of "v + 2048" u8]
    getInt6_setInt6_raw[OF assms, of "w + 32" u8]
  by (auto simp add: setInt12_def setInt6_def)

theorem bitview_roundtrip_witness:
  "(11::nat) div 8 < 2 ^ 31 \<and> 11 + 12 \<le> 8 * length [0xA5, 0x5A, 0xC3 :: 8 word]
     \<and> getInt12 (setInt12 [0xA5, 0x5A, 0xC3] 11 (- 1234)) 11 = - 1234
     \<and> getInt6 (setInt6 [0xA5, 0x5A, 0xC3] 11 (- 17)) 11 = - 17"
  using bitview_roundtrip[of 11 "- 1234" "[0xA5, 0x5A, 0xC3]" "- 17"]
  by simp

subsection \<open>Bits outside the written field\<close>

text \<open>
  C7 (as the specification states it): for every bit offset and in-range value,
  \<^verbatim>\<open>setInt12\<close> and \<^verbatim>\<open>setInt6\<close> change only the bits of the field that starts at that
  offset. At bit offset \<open>8 * (2^32 - 1)\<close> the 32-bit byte index is \<open>-1\<close>: the write to
  byte \<open>-1\<close> is ignored and the write meant for the second byte of the field lands in
  byte 0 of the buffer, which is far outside the field.
\<close>

theorem bitview_frame_counterexample:
  "\<not> (34359738360 \<le> (0::nat) \<and> (0::nat) < 34359738360 + 12) \<and>
   buf_bit (setInt12 [0xFF] 34359738360 0) 0 \<noteq> buf_bit [0xFF] 0"
  by (simp add: buf_bit_def setInt12_def setInt12_raw_def u8_get_def u8_set_def to_int32_def Let_def)

text \<open>
  C7 (amended): for every bit offset whose byte index is below \<open>2^31\<close> and every in-range
  value, \<^verbatim>\<open>setInt12\<close> and \<^verbatim>\<open>setInt6\<close> keep the length of the buffer and leave every
  bit outside the 12-bit (6-bit) field that starts at the offset as it was.
\<close>

theorem bitview_frame:
  assumes "idx div 8 < 2 ^ 31"
  shows "(- 2048 \<le> v \<and> v \<le> 2047 \<longrightarrow>
           length (setInt12 u8 idx v) = length u8 \<and>
           (\<forall>i. \<not> (idx \<le> i \<and> i < idx + 12) \<longrightarrow> buf_bit (setInt12 u8 idx v) i = buf_bit u8 i))
       \<and> (- 32 \<le> w \<and> w \<le> 31 \<longrightarrow>
           length (setInt6 u8 idx w) = length u8 \<and>
           (\<forall>i. \<not> (idx \<le> i \<and> i < idx + 6) \<longrightarrow> buf_bit (setInt6 u8 idx w) i = buf_bit u8 i))"
  using buf_bit_setInt12_raw[OF assms, of "v + 2048" u8]
    buf_bit_setInt6_raw[OF assms, of "w + 32" u8]
  by (auto simp add: setInt12_def setInt6_def length_setInt12_raw length_setInt6_raw)

theorem bitview_frame_witness:
  "(11::nat) div 8 < 2 ^ 31 \<and> - 2048 \<le> (- 1234 :: int) \<and> (- 1234 :: int) \<le> 2047
     \<and> - 32 \<le> (- 17 :: int) \<and> (- 17 :: int) \<le> 31
     \<and> length (setInt12 [0xA5, 0x5A, 0xC3] 11 (- 1234)) = 3
     \<and> buf_bit (setInt12 [0xA5, 0x5A, 0xC3] 11 (- 1234)) 10 = buf_bit [0xA5, 0x5A, 0xC3] 10
     \<and> buf_bit (setInt12 [0xA5, 0x5A, 0xC3] 11 (- 1234)) 23 = buf_bit [0xA5, 0x5A, 0xC3] 23
     \<and> buf_bit (setInt6 [0xA5, 0x5A, 0xC3] 11 (- 17)) 17 = buf_bit [0xA5, 0x5A, 0xC3] 17"
  using bitview_frame[of 11 "- 1234" "[0xA5, 0x5A, 0xC3]" "- 17"]
  by simp

section \<open>Stage-1 quantization and the stream of compress\<close>

lemma trunc_rat_of_int [simp]: "trunc_rat (of_int k) = k"
  by (simp add: trunc_rat_def)

lemma trunc_rat_numeral [simp]:
  "trunc_rat (numeral n) = numeral n" "trunc_rat (- numeral n) = - numeral n"
  "trunc_rat 0 = 0" "trunc_rat 1 = 1"
  by (simp_all add: trunc_rat_def)







subsection \<open>The packed stream of a model without points\<close>

lemma enc_empty: "encode_loop (map quant12 (compress_stream [])) [] [] [] 0 0 0 = ([[[]]], 3)"
  by (simp add: compress_stream_def quant12_def)

lemma store_empty_1: "setInt12_raw [0,0,0,0,0,0,0] 32 0 = [0,0,0,0,0,0,0]"
  by (simp add: setInt12_raw_def Let_def to_int32_def u8_get_def u8_set_def)

lemma store_empty_2: "setInt12_raw [0,0,0,0,0,0,0] 44 0 = [0,0,0,0,0,0,0]"
  by (simp add: setInt12_raw_def Let_def to_int32_def u8_get_def u8_set_def)

lemma store_empty_3: "setInt6 [0,0,0,0,0,0,0] 56 (- 32) = [0,0,0,0,0,0,0]"
  by (simp add: setInt6_def setInt6_raw_def Let_def to_int32_def u8_get_def u8_set_def)

lemma store_empty_4: "setInt12 [0,0,0,0,0,0,0] 62 (- 2048) = [0,0,0,0,0,0,0]"
  by (simp add: setInt12_def setInt12_raw_def Let_def to_int32_def u8_get_def u8_set_def)

lemma store_empty: "store_polys [0,0,0,0,0,0,0] 32 [[[]]] = ([0,0,0,0,0,0,0], 74)"
  by (simp add: store_span_def setInt12_at_def store_empty_1 store_empty_2 store_empty_3 store_empty_4)

lemma replicate_7: "replicate 7 (0::8 word) = [0,0,0,0,0,0,0]"
  by (simp add: eval_nat_numeral)

lemma be_bytes_74: "be_bytes 4 74 = [0, 0, 0, 74]"
  by (simp add: be_bytes_def le_bytes_def upt_conv_Cons)

lemma enc_empty_bytes: "deltaEncode6 (compress_stream []) = [0, 0, 0, 74, 0, 0, 0]"
  by (simp add: deltaEncode6_def enc_empty storeDeltas6_def replicate_7 store_empty be_bytes_74
      del: store_polys.simps)






subsection \<open>Stage 1 truncates\<close>




subsection \<open>The terminator of the point stream\<close>




subsection \<open>The version byte\<close>




subsection \<open>The size of the packed buffer\<close>

text \<open>
  C8: for every stream produced by compress, the buffer of
  \<open>ceil(byteLen * 0.75) + 4\<close> bytes that \<^verbatim>\<open>storeDeltas6\<close> allocates holds every field
  it writes, and the bit index recorded in the header never exceeds 8 times the length
  of the buffer. For a model without points the stream is the terminator alone: the
  encoder counts 3 for it and pushes an empty span, for which \<^verbatim>\<open>storeDeltas6\<close> writes
  two 12-bit anchors from the missing elements, the span sentinel and the part
  sentinel. The buffer has 7 bytes, that is 56 bits, and the header records 74.
\<close>

theorem buffer_size_empty_stream:
  "compress_records False False [] = Inr ([], [], [], [])
   \<and> encode_loop (map quant12 (compress_stream [])) [] [] [] 0 0 0 = ([[[]]], 3)
   \<and> store_polys (replicate ((3 * 3 + 3) div 4 + 4) 0) 32 [[[]]] = (replicate 7 0, 74)
   \<and> deltaEncode6 (compress_stream []) = [0, 0, 0, 74, 0, 0, 0]
   \<and> getUint32 (deltaEncode6 (compress_stream [])) 0 False = Inr 74
   \<and> 8 * length (deltaEncode6 (compress_stream [])) < 74"
proof -
  have "store_polys (replicate ((3 * 3 + 3) div 4 + 4) 0) 32 [[[]]] = (replicate 7 0, 74)"
    using store_empty by (simp add: replicate_7)
  moreover have "getUint32 [0, 0, 0, 74, 0, 0, 0] 0 False = Inr 74"
    by (simp add: getUint32_def dv_read_def le_val_def)
  ultimately show ?thesis
    by (simp add: enc_empty enc_empty_bytes)
qed

section \<open>The records that decompress builds\<close>


lemma read_parts_length:
  "read_parts fp zs ms lens prts cps s = Inr (prts', s') \<Longrightarrow> length prts' = length prts + length lens"
  by (induction lens arbitrary: prts cps s) (auto split: sum.splits)




subsection \<open>A model that holds one Null record\<close>








subsection \<open>Record numbers and record lengths\<close>



section \<open>The parser on a framed file\<close>

lemma getInt32_at_ok:
  "0 \<le> idx \<Longrightarrow> idx + 4 \<le> int (length dv) \<Longrightarrow> getInt32_at dv idx False = Inr (int32_at dv idx)"
  by (auto simp add: int32_at_def getInt32_at_def getInt32_def dv_read_def)

lemma parse_records_framed:
  "framed dv bl idx n \<Longrightarrow>
     parse_records dv bl idx recs = Some (Inr (recs @ map (frame_record dv) (frame_offsets dv idx n)))"
proof (induction n arbitrary: idx recs)
  case 0
  then show ?case by (subst parse_records.simps) simp
next
  case (Suc n)
  from Suc.prems have lt: "idx < bl" and i0: "0 \<le> idx" and fit: "idx + 8 \<le> int (length dv)"
    and rest: "framed dv bl (idx + 8 + int32_at dv (idx + 4) * 2) n"
    by simp_all
  have a: "getInt32_at dv idx False = Inr (int32_at dv idx)"
    using i0 fit by (intro getInt32_at_ok) simp_all
  have b: "getInt32_at dv (idx + 4) False = Inr (int32_at dv (idx + 4))"
    using i0 fit by (intro getInt32_at_ok) simp_all
  show ?case
    by (subst parse_records.simps) (simp add: lt a b Suc.IH[OF rest] frame_record_def)
qed

lemma length_frame_offsets: "length (frame_offsets dv idx n) = n"
  by (induction n arbitrary: idx) simp_all

lemma read_f64s_ok:
  "idx + 8 * n \<le> length dv \<Longrightarrow> \<exists>vs. read_f64s dv idx n = Inr (vs, idx + 8 * n)"
proof (induction n arbitrary: idx)
  case 0
  then show ?case by simp
next
  case (Suc n)
  have "idx + 8 + 8 * n \<le> length dv" using Suc.prems by simp
  from Suc.IH[OF this] obtain vs where "read_f64s dv (idx + 8) n = Inr (vs, idx + 8 + 8 * n)" by blast
  moreover have "\<exists>v. getFloat64 dv idx True = Inr v"
    using Suc.prems by (simp add: getFloat64_def dv_read_def)
  ultimately show ?case by (auto simp add: add.assoc)
qed

lemma getInt32_ok: "off + 4 \<le> length dv \<Longrightarrow> \<exists>v. getInt32 dv off le = Inr v"
  by (simp add: getInt32_def dv_read_def)

lemma two_record_file_bytes:
  "two_record_file =
     [0, 0, 39, 10] @ replicate 20 0 @ [0, 0, 0, 70] @ [232, 3, 0, 0] @ [1, 0, 0, 0]
       @ replicate 64 0
       @ [0, 0, 0, 1] @ [0, 0, 0, 2] @ [99, 0, 0, 0]
       @ [0, 0, 0, 2] @ [0, 0, 0, 10] @ [1, 0, 0, 0]
       @ [0, 0, 0, 0, 0, 0, 36, 64] @ [0, 0, 0, 0, 0, 0, 52, 64]"
  by (simp add: two_record_file_def be_bytes_def le_bytes_def upt_conv_Cons)

lemma length_two_record_file: "length two_record_file = 140"
  by (simp add: two_record_file_bytes)

lemma drop_app: "n \<le> length xs \<Longrightarrow> drop n (xs @ ys) = drop n xs @ ys"
  by simp

lemma trf_magic: "getInt32 two_record_file 0 False = Inr 9994"
  by (simp add: getInt32_def dv_read_def length_two_record_file)
     (simp add: two_record_file_bytes le_val_def)


lemma trf_int32:
  "int32_at two_record_file 24 = 70" "int32_at two_record_file 100 = 1"
  "int32_at two_record_file 104 = 2"
  "int32_at two_record_file 112 = 2" "int32_at two_record_file 116 = 10"
  by (simp_all add: int32_at_def getInt32_at_def getInt32_def dv_read_def length_two_record_file)
     (simp_all add: two_record_file_bytes le_val_def)

lemma trf_framed: "framed two_record_file (int32_at two_record_file 24 * 2) 100 2"
  by (simp add: numeral_2_eq_2 trf_int32 length_two_record_file)

lemma trf_offsets: "frame_offsets two_record_file 100 2 = [100, 112]"
  by (simp add: numeral_2_eq_2 trf_int32)

lemma trf_shape_0: "parseShape two_record_file 108 = Inl (UnknownShapeType 99)"
  by (simp add: parseShape_def getInt32_def dv_read_def length_two_record_file)
     (simp add: two_record_file_bytes le_val_def)

lemma f64_10: "decode_f64 0x4024000000000000 = Fin 10"
  by (simp add: decode_f64_def Let_def bit_simps)


lemma f64_20: "decode_f64 0x4034000000000000 = Fin 20"
  by (simp add: decode_f64_def Let_def bit_simps)

lemma trf_xy:
  "getFloat64 two_record_file 124 True = Inr (Fin 10)"
  "getFloat64 two_record_file 132 True = Inr (Fin 20)"
  by (simp_all add: getFloat64_def dv_read_def length_two_record_file)
     (simp_all add: two_record_file_bytes le_val_def f64_10 f64_20)

lemma trf_shape_1:
  "parseShape two_record_file 120 =
     Inr \<lparr>stype = POINT, content = PointC \<lparr>pt_x = Fin 10, pt_y = Fin 20, pt_z = None, pt_m = None\<rparr>\<rparr>"
proof -
  have t: "getInt32 two_record_file 120 True = Inr 1"
    by (simp add: getInt32_def dv_read_def length_two_record_file)
       (simp add: two_record_file_bytes le_val_def)
  show ?thesis
    by (simp add: parseShape_def t parse_point_def trf_xy clamp_def)
qed

subsection \<open>A record that cannot be parsed\<close>

text \<open>
  C9: during Shapefile parsing, a record whose shape type is unrecognized, or whose
  body cannot be parsed, is downgraded to a Null shape for that one record, and parsing
  continues with the remaining records and still returns a complete model. Stated for
  every buffer of at least 100 bytes that starts with the file code 9994 and in which
  \<open>n\<close> record headers can be read one after the other up to the declared length,
  whatever the bodies hold: \<^verbatim>\<open>parse\<close> returns a model of \<open>n\<close> records with the
  numbers and lengths of the headers; a record for which \<^verbatim>\<open>parseShape\<close> throws has the
  Null shape, every other record the shape that \<^verbatim>\<open>parseShape\<close> returns.
\<close>

theorem malformed_records_become_null:
  assumes "100 \<le> length buf" and "getInt32 buf 0 False = Inr 9994"
    and "framed buf (int32_at buf 24 * 2) 100 n"
  shows "\<exists>shp. parse buf = Some (Inr shp) \<and> length (records shp) = n \<and>
          (\<forall>i < n. number (records shp ! i) = int32_at buf (frame_offsets buf 100 n ! i)
                 \<and> rlength (records shp ! i) = int32_at buf (frame_offsets buf 100 n ! i + 4)
                 \<and> shape (records shp ! i) =
                     (case parseShape buf (nat (frame_offsets buf 100 n ! i + 8)) of
                        Inl e \<Rightarrow> \<lparr>stype = NULL, content = NoContent\<rparr>
                      | Inr s \<Rightarrow> s))"
proof -
  have w: "getInt32 buf 24 False = Inr (int32_at buf 24)"
    using getInt32_at_ok[of 24 buf] assms(1) by (simp add: getInt32_at_def)
  obtain ver where v: "getInt32 buf 28 True = Inr ver"
    using getInt32_ok[of 28 buf True] assms(1) by auto
  obtain st where s: "getInt32 buf 32 True = Inr st"
    using getInt32_ok[of 32 buf True] assms(1) by auto
  obtain bs where b: "read_f64s buf 36 8 = Inr (bs, 100)"
    using read_f64s_ok[of 36 8 buf] assms(1) by auto
  note p = parse_records_framed[OF assms(3), of "[]"]
  show ?thesis
    unfolding parse_def
    by (simp add: assms(2) w v s b p length_frame_offsets frame_record_def shape_or_null_def)
qed

theorem malformed_records_become_null_witness:
  "100 \<le> length two_record_file \<and> getInt32 two_record_file 0 False = Inr 9994
   \<and> framed two_record_file (int32_at two_record_file 24 * 2) 100 2
   \<and> parseShape two_record_file 108 = Inl (UnknownShapeType 99)
   \<and> (\<exists>shp. parse two_record_file = Some (Inr shp) \<and> length (records shp) = 2
         \<and> shape (records shp ! 0) = \<lparr>stype = NULL, content = NoContent\<rparr>
         \<and> shape (records shp ! 1) =
              \<lparr>stype = POINT, content = PointC \<lparr>pt_x = Fin 10, pt_y = Fin 20, pt_z = None, pt_m = None\<rparr>\<rparr>)"
proof -
  have l: "100 \<le> length two_record_file" by (simp add: length_two_record_file)
  from malformed_records_become_null[OF l trf_magic trf_framed]
  obtain shp where p: "parse two_record_file = Some (Inr shp)" and n: "length (records shp) = 2"
    and a: "\<forall>i<2. shape (records shp ! i) =
                     (case parseShape two_record_file (nat (frame_offsets two_record_file 100 2 ! i + 8)) of
                        Inl e \<Rightarrow> \<lparr>stype = NULL, content = NoContent\<rparr>
                      | Inr s \<Rightarrow> s)"
    by blast
  from a have "shape (records shp ! 0) = \<lparr>stype = NULL, content = NoContent\<rparr>"
    by (simp add: trf_offsets trf_shape_0)
  moreover from a have "shape (records shp ! 1) =
      \<lparr>stype = POINT, content = PointC \<lparr>pt_x = Fin 10, pt_y = Fin 20, pt_z = None, pt_m = None\<rparr>\<rparr>"
    by (simp add: trf_offsets trf_shape_1)
  ultimately show ?thesis
    using l trf_magic trf_framed trf_shape_0 p n by simp
qed

end
